theory Spec2Isabelle
  imports Main "HOL-Library.Multiset"
begin

section \<open>The rule record (class CasbinRule)\<close>

text \<open>
  One row of the table \<open>casbin_rule\<close>: the primary key, the policy type and the six
  nullable value columns. The primary key is written \<open>id_col\<close> (the name \<open>id\<close> is HOL's
  identity function); \<open>None\<close> in a value column is SQL NULL. A freshly constructed
  object has no key yet, which is written \<open>id_col = 0\<close>: the keys the table hands out
  start at 1.
\<close>

record casbin_rule =
  id_col :: nat
  ptype :: string
  v0 :: "string option"
  v1 :: "string option"
  v2 :: "string option"
  v3 :: "string option"
  v4 :: "string option"
  v5 :: "string option"

text \<open>The six value columns of a row, in order.\<close>

definition values_of :: "casbin_rule \<Rightarrow> string option list" where
  "values_of r = [v0 r, v1 r, v2 r, v3 r, v4 r, v5 r]"

text \<open>
  \<open>CasbinRule.__str__\<close>: the loop over \<open>(v0, ..., v5)\<close> appends every value up to
  the first \<open>None\<close>, where it breaks; the result is joined with \<open>", "\<close>.
\<close>

fun until_none :: "string option list \<Rightarrow> string list" where
  "until_none [] = []"
| "until_none (None # vs) = []"
| "until_none (Some v # vs) = v # until_none vs"

fun join :: "string \<Rightarrow> string list \<Rightarrow> string" where
  "join sep [] = []"
| "join sep [x] = x"
| "join sep (x # y # ys) = x @ sep @ join sep (y # ys)"

definition str_rule :: "casbin_rule \<Rightarrow> string" where
  "str_rule r = join '', '' (ptype r # until_none (values_of r))"

text \<open>
  Attribute access by computed name \<open>"v{}".format(i)\<close>.
  \<open>getattr\<close> on the class yields the column for \<open>i\<close> from 0 to 5 and raises
  AttributeError otherwise (\<open>None\<close> here). \<open>setattr\<close> on an instance (and the
  assignment run through \<open>exec\<close>) never raises: for \<open>i\<close> from 0 to 5 it writes the
  column; for any other \<open>i\<close> it creates a plain attribute of the Python object, which
  is no column and is never written to the table, so the row is unchanged.
\<close>

definition getattr_v :: "nat \<Rightarrow> (casbin_rule \<Rightarrow> string option) option" where
  "getattr_v i =
     (if i = 0 then Some v0 else if i = 1 then Some v1 else if i = 2 then Some v2
      else if i = 3 then Some v3 else if i = 4 then Some v4 else if i = 5 then Some v5
      else None)"

definition setattr_v :: "nat \<Rightarrow> string option \<Rightarrow> casbin_rule \<Rightarrow> casbin_rule" where
  "setattr_v i v line =
     (if i = 0 then line\<lparr>v0 := v\<rparr> else if i = 1 then line\<lparr>v1 := v\<rparr>
      else if i = 2 then line\<lparr>v2 := v\<rparr> else if i = 3 then line\<lparr>v3 := v\<rparr>
      else if i = 4 then line\<lparr>v4 := v\<rparr> else if i = 5 then line\<lparr>v5 := v\<rparr>
      else line)"

text \<open>\<open>self._db_class(ptype=ptype)\<close>: a new object with every other column unset.\<close>

definition new_line :: "string \<Rightarrow> casbin_rule" where
  "new_line p = \<lparr>id_col = 0, ptype = p, v0 = None, v1 = None, v2 = None,
                 v3 = None, v4 = None, v5 = None\<rparr>"

section \<open>Storage, sessions and transactions\<close>

text \<open>
  The table is the list of its rows in storage order, which need not be the order of
  the keys. The exceptions of the adapter are values of \<open>error\<close>.

  The relational backend is outside the repository. What the adapter needs of it is
  taken as a parameter: \<open>backend\<close> says whether the backend accepts a row when it is
  flushed (a backend that enforces the declared \<open>String(255)\<close> bound refuses a longer
  value); a refused row makes the flush raise.
\<close>

datatype error = StorageError | AttributeError | NoResultFound | MultipleResultsFound
  | IndexError | LoaderError

type_synonym table = "casbin_rule list"

type_synonym backend = "casbin_rule \<Rightarrow> bool"

text \<open>
  The changes a session holds until it commits: an object added with \<open>session.add\<close>,
  the rows a bulk \<open>query.delete()\<close> removed when it ran, and a loaded object whose
  attributes were assigned.
\<close>

datatype change = Add casbin_rule | Delete "casbin_rule list" | Modify casbin_rule casbin_rule

text \<open>The next key of the auto-increment primary key.\<close>

definition fresh_id :: "table \<Rightarrow> nat" where
  "fresh_id tbl = Suc (fold max (map id_col tbl) 0)"

text \<open>
  \<open>session.commit()\<close>: the pending changes reach the table in order; the first row the
  backend refuses raises.
\<close>

fun flush :: "backend \<Rightarrow> change list \<Rightarrow> table \<Rightarrow> error + table" where
  "flush B [] tbl = Inr tbl"
| "flush B (Add line # ws) tbl =
     (let row = line\<lparr>id_col := fresh_id tbl\<rparr>
      in if B row then flush B ws (tbl @ [row]) else Inl StorageError)"
| "flush B (Delete rows # ws) tbl = flush B ws (filter (\<lambda>r. r \<notin> set rows) tbl)"
| "flush B (Modify old new # ws) tbl =
     (if B new then flush B ws (map (\<lambda>r. if r = old then new else r) tbl)
      else Inl StorageError)"

text \<open>
  \<open>Adapter._session_scope\<close>, applied to the outcome of the body of the \<open>with\<close>
  statement: an exception of the body, or its pending changes and its value.
  On normal completion the session commits; on an exception of the body or of the
  commit it rolls back, so the table stays as it is, and the exception is raised again.
\<close>

definition session_scope :: "backend \<Rightarrow> error + change list \<times> 'a \<Rightarrow> table \<Rightarrow> table \<times> (error + 'a)" where
  "session_scope B outcome tbl =
     (case outcome of
        Inl e \<Rightarrow> (tbl, Inl e)
      | Inr (ws, r) \<Rightarrow>
          (case flush B ws tbl of
             Inl e \<Rightarrow> (tbl, Inl e)
           | Inr tbl' \<Rightarrow> (tbl', Inr r)))"

section \<open>The insert path\<close>

text \<open>
  \<open>Adapter._save_policy_line\<close>: opens a session scope of its own, builds the object,
  assigns \<open>v{i}\<close> for every \<open>(i, v)\<close> of \<open>enumerate(rule)\<close> and adds it.
\<close>

fun set_values :: "nat \<Rightarrow> string list \<Rightarrow> casbin_rule \<Rightarrow> casbin_rule" where
  "set_values i [] line = line"
| "set_values i (v # vs) line = set_values (Suc i) vs (setattr_v i (Some v) line)"

definition save_policy_line :: "backend \<Rightarrow> string \<Rightarrow> string list \<Rightarrow> table \<Rightarrow> table \<times> (error + unit)" where
  "save_policy_line B p rule tbl =
     session_scope B (Inr ([Add (set_values 0 rule (new_line p))], ())) tbl"

text \<open>\<open>Adapter.add_policy\<close>: \<open>sec\<close> is not used.\<close>

definition add_policy :: "backend \<Rightarrow> string \<Rightarrow> string \<Rightarrow> string list \<Rightarrow> table \<Rightarrow> table \<times> (error + unit)" where
  "add_policy B sec p rule tbl = save_policy_line B p rule tbl"

text \<open>
  \<open>Adapter.add_policies\<close>: one call of \<open>_save_policy_line\<close> per rule, in order; an
  exception of a call ends the loop.
\<close>

fun add_policies :: "backend \<Rightarrow> string \<Rightarrow> string \<Rightarrow> string list list \<Rightarrow> table \<Rightarrow> table \<times> (error + unit)" where
  "add_policies B sec p [] tbl = (tbl, Inr ())"
| "add_policies B sec p (rule # rules) tbl =
     (case save_policy_line B p rule tbl of
        (tbl', Inl e) \<Rightarrow> (tbl', Inl e)
      | (tbl', Inr u) \<Rightarrow> add_policies B sec p rules tbl')"

text \<open>A backend that accepts every row, and one that enforces \<open>String(255)\<close>.\<close>

definition accept_all :: backend where
  "accept_all r = True"

definition fits :: "string option \<Rightarrow> bool" where
  "fits v = (case v of None \<Rightarrow> True | Some s \<Rightarrow> length s \<le> 255)"

definition string255 :: backend where
  "string255 r = (length (ptype r) \<le> 255 \<and> list_all fits (values_of r))"

section \<open>Queries\<close>

text \<open>
  A query is its WHERE condition and whether it is ordered by the key.
  \<open>session.query(self._db_class)\<close> starts with no condition, \<open>query.filter(c)\<close> adds
  \<open>c\<close> by conjunction. A comparison \<open>column == v\<close> or \<open>column.in_(vs)\<close> is never true
  of a NULL column.
\<close>

record query =
  cond :: "casbin_rule \<Rightarrow> bool"
  ordered :: bool

definition query_db :: query where
  "query_db = \<lparr>cond = (\<lambda>r. True), ordered = False\<rparr>"

definition filter_q :: "query \<Rightarrow> (casbin_rule \<Rightarrow> bool) \<Rightarrow> query" where
  "filter_q q c = q\<lparr>cond := (\<lambda>r. cond q r \<and> c r)\<rparr>"

definition order_by_id :: "query \<Rightarrow> query" where
  "order_by_id q = q\<lparr>ordered := True\<rparr>"

definition eq_col :: "(casbin_rule \<Rightarrow> string option) \<Rightarrow> string \<Rightarrow> casbin_rule \<Rightarrow> bool" where
  "eq_col col v r = (col r = Some v)"

definition in_col :: "(casbin_rule \<Rightarrow> string option) \<Rightarrow> string list \<Rightarrow> casbin_rule \<Rightarrow> bool" where
  "in_col col vs r = (case col r of None \<Rightarrow> False | Some s \<Rightarrow> s \<in> set vs)"

text \<open>\<open>query.all()\<close>: the rows that satisfy the condition, in storage order unless the
  query is ordered by the key.\<close>

definition all_q :: "query \<Rightarrow> table \<Rightarrow> casbin_rule list" where
  "all_q q tbl =
     (let rs = filter (cond q) tbl in if ordered q then sort_key id_col rs else rs)"

text \<open>\<open>query.one()\<close>: the only row of the result, and an exception when there is none
  or more than one.\<close>

definition one_q :: "query \<Rightarrow> table \<Rightarrow> error + casbin_rule" where
  "one_q q tbl =
     (case all_q q tbl of
        [] \<Rightarrow> Inl NoResultFound
      | [r] \<Rightarrow> Inr r
      | r # r' # rs \<Rightarrow> Inl MultipleResultsFound)"

text \<open>\<open>query.delete()\<close>: removes the rows that satisfy the condition within the session
  and returns their number.\<close>

definition delete_q :: "query \<Rightarrow> table \<Rightarrow> change list \<times> nat" where
  "delete_q q tbl = (let rows = filter (cond q) tbl in ([Delete rows], length rows))"

section \<open>The filter builder\<close>

text \<open>Class \<open>Filter\<close>: one list of accepted values per column (the fields carry the
  suffix \<open>_f\<close>, the names without it being the columns of the row).\<close>

record rule_filter =
  ptype_f :: "string list"
  v0_f :: "string list"
  v1_f :: "string list"
  v2_f :: "string list"
  v3_f :: "string list"
  v4_f :: "string list"
  v5_f :: "string list"

definition filter_query :: "query \<Rightarrow> rule_filter \<Rightarrow> query" where
  "filter_query querydb flt =
     (let q0 = (if length (ptype_f flt) > 0
                then filter_q querydb (\<lambda>r. ptype r \<in> set (ptype_f flt)) else querydb);
          q1 = (if length (v0_f flt) > 0 then filter_q q0 (in_col v0 (v0_f flt)) else q0);
          q2 = (if length (v1_f flt) > 0 then filter_q q1 (in_col v1 (v1_f flt)) else q1);
          q3 = (if length (v2_f flt) > 0 then filter_q q2 (in_col v2 (v2_f flt)) else q2);
          q4 = (if length (v3_f flt) > 0 then filter_q q3 (in_col v3 (v3_f flt)) else q3);
          q5 = (if length (v4_f flt) > 0 then filter_q q4 (in_col v4 (v4_f flt)) else q4);
          q6 = (if length (v5_f flt) > 0 then filter_q q5 (in_col v5 (v5_f flt)) else q5)
      in order_by_id q6)"

section \<open>The read path\<close>

text \<open>
  \<open>persist.load_policy_line\<close> belongs to the policy engine and is taken as a parameter:
  a loader receives a line and the model and returns the model with the line installed,
  or raises. The loop of \<open>load_policy\<close> and \<open>load_filtered_policy\<close> hands it
  \<open>str(line)\<close> for every row, in order, and ends at the first exception;
  \<open>load_lines\<close> is that loop over the strings.
\<close>

type_synonym 'm loader = "string \<Rightarrow> 'm \<Rightarrow> error + 'm"

fun load_lines :: "'m loader \<Rightarrow> string list \<Rightarrow> 'm \<Rightarrow> 'm \<times> (error + unit)" where
  "load_lines L [] m = (m, Inr ())"
| "load_lines L (line # lines) m =
     (case L line m of
        Inl e \<Rightarrow> (m, Inl e)
      | Inr m' \<Rightarrow> load_lines L lines m')"

definition load_policy :: "backend \<Rightarrow> 'm loader \<Rightarrow> 'm \<Rightarrow> table \<Rightarrow> table \<times> 'm \<times> (error + unit)" where
  "load_policy B L model tbl =
     (let lines = all_q query_db tbl;
          (model', res) = load_lines L (map str_rule lines) model;
          (tbl', out) = session_scope B (case res of Inl e \<Rightarrow> Inl e | Inr u \<Rightarrow> Inr ([], u)) tbl
      in (tbl', model', out))"

text \<open>
  The adapter object: the table behind \<open>self._engine\<close> and the flag \<open>self._filtered\<close>.
  The methods that touch only the table are functions on the table; \<open>step\<close> below
  applies them to the adapter.
\<close>

record adapter =
  engine :: table
  filtered :: bool

text \<open>\<open>Adapter.__init__\<close> with the default record class; \<open>create_all\<close> leaves an existing
  table as it is.\<close>

definition init :: "table \<Rightarrow> bool \<Rightarrow> adapter" where
  "init eng flag = \<lparr>engine = eng, filtered = flag\<rparr>"

definition is_filtered :: "adapter \<Rightarrow> bool" where
  "is_filtered a = filtered a"

text \<open>\<open>Adapter.load_filtered_policy\<close>: the flag is set after the loop, so only when no
  line raised.\<close>

definition load_filtered_policy ::
  "backend \<Rightarrow> 'm loader \<Rightarrow> 'm \<Rightarrow> rule_filter \<Rightarrow> adapter \<Rightarrow> adapter \<times> 'm \<times> (error + unit)" where
  "load_filtered_policy B L model flt a =
     (let query = query_db;
          filters = all_q (filter_query query flt) (engine a);
          (model', res) = load_lines L (map str_rule filters) model;
          (tbl', out) = session_scope B (case res of Inl e \<Rightarrow> Inl e | Inr u \<Rightarrow> Inr ([], u)) (engine a)
      in case out of
           Inl e \<Rightarrow> (a\<lparr>engine := tbl'\<rparr>, model', Inl e)
         | Inr u \<Rightarrow> (a\<lparr>engine := tbl', filtered := True\<rparr>, model', Inr u))"

section \<open>Saving a model\<close>

text \<open>
  \<open>model.model\<close>: the sections by name, each the policy types by name with the rules
  of \<open>ast.policy\<close>; dictionaries in insertion order.

  \<open>Adapter.save_policy\<close>: the outer session runs the bulk delete; every rule is then
  written by \<open>_save_policy_line\<close>, which opens and commits a session of its own; the
  outer session commits (or, on an exception, rolls back) the delete at the end.
  The sessions are separate transactions: the delete of the outer session removes the
  rows that were in the table when it ran, and it reaches the table only with the
  commit of the outer session, after the inserts.
\<close>

type_synonym policy_model = "(string \<times> (string \<times> string list list) list) list"

fun save_rules :: "backend \<Rightarrow> string \<Rightarrow> string list list \<Rightarrow> table \<Rightarrow> table \<times> (error + unit)" where
  "save_rules B p [] tbl = (tbl, Inr ())"
| "save_rules B p (rule # rules) tbl =
     (case save_policy_line B p rule tbl of
        (tbl', Inl e) \<Rightarrow> (tbl', Inl e)
      | (tbl', Inr u) \<Rightarrow> save_rules B p rules tbl')"

fun save_items :: "backend \<Rightarrow> (string \<times> string list list) list \<Rightarrow> table \<Rightarrow> table \<times> (error + unit)" where
  "save_items B [] tbl = (tbl, Inr ())"
| "save_items B ((p, policy) # items) tbl =
     (case save_rules B p policy tbl of
        (tbl', Inl e) \<Rightarrow> (tbl', Inl e)
      | (tbl', Inr u) \<Rightarrow> save_items B items tbl')"

fun save_secs :: "backend \<Rightarrow> policy_model \<Rightarrow> string list \<Rightarrow> table \<Rightarrow> table \<times> (error + unit)" where
  "save_secs B model [] tbl = (tbl, Inr ())"
| "save_secs B model (sec # secs) tbl =
     (case map_of model sec of
        None \<Rightarrow> save_secs B model secs tbl
      | Some items \<Rightarrow>
          (case save_items B items tbl of
             (tbl', Inl e) \<Rightarrow> (tbl', Inl e)
           | (tbl', Inr u) \<Rightarrow> save_secs B model secs tbl'))"

definition save_policy :: "backend \<Rightarrow> policy_model \<Rightarrow> table \<Rightarrow> table \<times> (error + bool)" where
  "save_policy B model tbl =
     (let query = query_db;
          (ws, r) = delete_q query tbl;
          (tbl1, res) = save_secs B model [''p'', ''g''] tbl;
          (tbl2, out) = session_scope B (case res of Inl e \<Rightarrow> Inl e | Inr u \<Rightarrow> Inr (ws, u)) tbl1
      in case out of Inl e \<Rightarrow> (tbl2, Inl e) | Inr u \<Rightarrow> (tbl2, Inr True))"

section \<open>The delete path\<close>

text \<open>The loop \<open>for i, v in enumerate(rule): query = query.filter(getattr(cls, "v{i}") == v)\<close>
  of \<open>remove_policy\<close> and of \<open>update_policy\<close>, from index \<open>i\<close> on.\<close>

fun filter_rule :: "query \<Rightarrow> nat \<Rightarrow> string list \<Rightarrow> error + query" where
  "filter_rule q i [] = Inr q"
| "filter_rule q i (v # vs) =
     (case getattr_v i of
        None \<Rightarrow> Inl AttributeError
      | Some col \<Rightarrow> filter_rule (filter_q q (eq_col col v)) (Suc i) vs)"

definition remove_policy :: "backend \<Rightarrow> string \<Rightarrow> string \<Rightarrow> string list \<Rightarrow> table \<Rightarrow> table \<times> (error + bool)" where
  "remove_policy B sec p rule tbl =
     (let query = filter_q query_db (\<lambda>r. ptype r = p);
          body = (case filter_rule query 0 rule of
                    Inl e \<Rightarrow> Inl e
                  | Inr q \<Rightarrow> Inr (delete_q q tbl))
      in case session_scope B body tbl of
           (tbl', Inl e) \<Rightarrow> (tbl', Inl e)
         | (tbl', Inr r) \<Rightarrow> (tbl', Inr (if r > 0 then True else False)))"

text \<open>\<open>zip(*rules)\<close>: the columns of the rule list, as many as the shortest rule has
  elements.\<close>

definition zip_star :: "string list list \<Rightarrow> string list list" where
  "zip_star rules =
     (if rules = [] then []
      else map (\<lambda>i. map (\<lambda>rule. rule ! i) rules) [0..<Min (set (map length rules))])"

text \<open>The loop of \<open>remove_policies\<close> over the columns: \<open>or_\<close> of the comparisons of
  column \<open>i\<close> with every value of the \<open>i\<close>-th column of the rules.\<close>

fun filter_any :: "query \<Rightarrow> nat \<Rightarrow> string list list \<Rightarrow> error + query" where
  "filter_any q i [] = Inr q"
| "filter_any q i (rule # rules) =
     (case getattr_v i of
        None \<Rightarrow> Inl AttributeError
      | Some col \<Rightarrow> filter_any (filter_q q (\<lambda>r. list_ex (\<lambda>v. eq_col col v r) rule)) (Suc i) rules)"

definition remove_policies :: "backend \<Rightarrow> string \<Rightarrow> string \<Rightarrow> string list list \<Rightarrow> table \<Rightarrow> table \<times> (error + unit)" where
  "remove_policies B sec p rules tbl =
     (if rules = [] then (tbl, Inr ())
      else
        (let query = filter_q query_db (\<lambda>r. ptype r = p);
             body = (case filter_any query 0 (zip_star rules) of
                       Inl e \<Rightarrow> Inl e
                     | Inr q \<Rightarrow> Inr (fst (delete_q q tbl), ()))
         in session_scope B body tbl))"

text \<open>
  \<open>Adapter.remove_filtered_policy\<close>: \<open>field_index\<close> is a Python integer. The two
  \<open>return False\<close> leave the \<open>with\<close> block normally, so the session commits with nothing
  pending. The value of the body is the value the method returns.
\<close>

definition getattr_int :: "int \<Rightarrow> (casbin_rule \<Rightarrow> string option) option" where
  "getattr_int k = (if k < 0 then None else getattr_v (nat k))"

fun filter_values :: "query \<Rightarrow> int \<Rightarrow> nat \<Rightarrow> string list \<Rightarrow> error + query" where
  "filter_values q field_index i [] = Inr q"
| "filter_values q field_index i (v # vs) =
     (if v \<noteq> [] then
        (case getattr_int (field_index + int i) of
           None \<Rightarrow> Inl AttributeError
         | Some v_value \<Rightarrow> filter_values (filter_q q (eq_col v_value v)) field_index (Suc i) vs)
      else filter_values q field_index (Suc i) vs)"

definition remove_filtered_policy ::
  "backend \<Rightarrow> string \<Rightarrow> string \<Rightarrow> int \<Rightarrow> string list \<Rightarrow> table \<Rightarrow> table \<times> (error + bool)" where
  "remove_filtered_policy B sec p field_index field_values tbl =
     (let query = filter_q query_db (\<lambda>r. ptype r = p);
          body =
            (if \<not> (0 \<le> field_index \<and> field_index \<le> 5) then Inr ([], False)
             else if \<not> (1 \<le> field_index + int (length field_values)
                        \<and> field_index + int (length field_values) \<le> 6) then Inr ([], False)
             else
               (case filter_values query field_index 0 field_values of
                  Inl e \<Rightarrow> Inl e
                | Inr q \<Rightarrow>
                    (let (ws, r) = delete_q q tbl
                     in Inr (ws, if r > 0 then True else False))))
      in session_scope B body tbl)"

section \<open>The update path\<close>

text \<open>The loop \<open>for index in range(len(longest_rule))\<close> of \<open>update_policy\<close>.\<close>

definition overwrite :: "string list \<Rightarrow> string list \<Rightarrow> casbin_rule \<Rightarrow> casbin_rule" where
  "overwrite longest_rule new_rule old_rule_line =
     fold (\<lambda>index line.
             if index < length new_rule then setattr_v index (Some (new_rule ! index)) line
             else setattr_v index None line)
          [0..<length longest_rule] old_rule_line"

definition update_policy ::
  "backend \<Rightarrow> string \<Rightarrow> string \<Rightarrow> string list \<Rightarrow> string list \<Rightarrow> table \<Rightarrow> table \<times> (error + unit)" where
  "update_policy B sec p old_rule new_rule tbl =
     (let query = filter_q query_db (\<lambda>r. ptype r = p);
          body =
            (case filter_rule query 0 old_rule of
               Inl e \<Rightarrow> Inl e
             | Inr q \<Rightarrow>
                 (let longest_rule = (if length old_rule > length new_rule then old_rule else new_rule)
                  in case one_q q tbl of
                       Inl e \<Rightarrow> Inl e
                     | Inr old_rule_line \<Rightarrow>
                         Inr ([Modify old_rule_line (overwrite longest_rule new_rule old_rule_line)], ())))
      in session_scope B body tbl)"

text \<open>\<open>Adapter.update_policies\<close>: \<open>new_rules[i]\<close> raises IndexError when \<open>new_rules\<close>
  is the shorter list.\<close>

fun update_policies ::
  "backend \<Rightarrow> string \<Rightarrow> string \<Rightarrow> string list list \<Rightarrow> string list list \<Rightarrow> table \<Rightarrow> table \<times> (error + unit)" where
  "update_policies B sec p [] new_rules tbl = (tbl, Inr ())"
| "update_policies B sec p (old_rule # old_rules) [] tbl = (tbl, Inl IndexError)"
| "update_policies B sec p (old_rule # old_rules) (new_rule # new_rules) tbl =
     (case update_policy B sec p old_rule new_rule tbl of
        (tbl', Inl e) \<Rightarrow> (tbl', Inl e)
      | (tbl', Inr u) \<Rightarrow> update_policies B sec p old_rules new_rules tbl')"

section \<open>The adapter under a sequence of calls\<close>

text \<open>Every public method as a call, and the adapter after the call (the returned
  value and the model are dropped).\<close>

datatype 'm call =
    LoadPolicy 'm
  | IsFiltered
  | LoadFilteredPolicy 'm rule_filter
  | SavePolicy policy_model
  | AddPolicy string string "string list"
  | AddPolicies string string "string list list"
  | RemovePolicy string string "string list"
  | RemovePolicies string string "string list list"
  | RemoveFilteredPolicy string string int "string list"
  | UpdatePolicy string string "string list" "string list"
  | UpdatePolicies string string "string list list" "string list list"

fun step :: "backend \<Rightarrow> 'm loader \<Rightarrow> 'm call \<Rightarrow> adapter \<Rightarrow> adapter" where
  "step B L (LoadPolicy m) a = a\<lparr>engine := fst (load_policy B L m (engine a))\<rparr>"
| "step B L IsFiltered a = a"
| "step B L (LoadFilteredPolicy m flt) a = fst (load_filtered_policy B L m flt a)"
| "step B L (SavePolicy model) a = a\<lparr>engine := fst (save_policy B model (engine a))\<rparr>"
| "step B L (AddPolicy sec p rule) a = a\<lparr>engine := fst (add_policy B sec p rule (engine a))\<rparr>"
| "step B L (AddPolicies sec p rules) a = a\<lparr>engine := fst (add_policies B sec p rules (engine a))\<rparr>"
| "step B L (RemovePolicy sec p rule) a = a\<lparr>engine := fst (remove_policy B sec p rule (engine a))\<rparr>"
| "step B L (RemovePolicies sec p rules) a =
     a\<lparr>engine := fst (remove_policies B sec p rules (engine a))\<rparr>"
| "step B L (RemoveFilteredPolicy sec p field_index field_values) a =
     a\<lparr>engine := fst (remove_filtered_policy B sec p field_index field_values (engine a))\<rparr>"
| "step B L (UpdatePolicy sec p old_rule new_rule) a =
     a\<lparr>engine := fst (update_policy B sec p old_rule new_rule (engine a))\<rparr>"
| "step B L (UpdatePolicies sec p old_rules new_rules) a =
     a\<lparr>engine := fst (update_policies B sec p old_rules new_rules (engine a))\<rparr>"

definition run :: "backend \<Rightarrow> 'm loader \<Rightarrow> 'm call list \<Rightarrow> adapter \<Rightarrow> adapter" where
  "run B L calls a = fold (step B L) calls a"

section \<open>Predicates of the specification\<close>

text \<open>The table after the row of \<open>rule\<close> under policy type \<open>p\<close> has been inserted: the
  row goes to the end and receives the next key.\<close>

definition insert_row :: "string \<Rightarrow> string list \<Rightarrow> table \<Rightarrow> table" where
  "insert_row p rule tbl = tbl @ [(set_values 0 rule (new_line p))\<lparr>id_col := fresh_id tbl\<rparr>]"

text \<open>A row matches \<open>p\<close> and every position of \<open>rule\<close> exactly. A row has the
  positions 0 to 5 only.\<close>

definition matches :: "string \<Rightarrow> string list \<Rightarrow> casbin_rule \<Rightarrow> bool" where
  "matches p rule r =
     (ptype r = p \<and> (\<forall>i<length rule. i < 6 \<and> values_of r ! i = Some (rule ! i)))"

text \<open>The relaxed match of \<open>remove_policies\<close>: the constrained positions are those
  below the length of the shortest rule, and at each of them the value of the row is
  the element of some rule at that position.\<close>

definition relaxed_match :: "string \<Rightarrow> string list list \<Rightarrow> casbin_rule \<Rightarrow> bool" where
  "relaxed_match p rules r =
     (ptype r = p \<and>
      (\<forall>i<Min (set (map length rules)).
         i < 6 \<and> (\<exists>rule\<in>set rules. values_of r ! i = Some (rule ! i))))"

text \<open>The match of \<open>remove_filtered_policy\<close>: every value that is not the empty string
  constrains the column at its offset from \<open>field_index\<close>.\<close>

definition filtered_match :: "string \<Rightarrow> nat \<Rightarrow> string list \<Rightarrow> casbin_rule \<Rightarrow> bool" where
  "filtered_match p field_index field_values r =
     (ptype r = p \<and>
      (\<forall>i<length field_values.
         field_values ! i \<noteq> [] \<longrightarrow> values_of r ! (field_index + i) = Some (field_values ! i)))"

text \<open>A loader that installs a line by recording it: the model is the list of the lines
  it was given.\<close>

definition record_line :: "string list loader" where
  "record_line line m = Inr (m @ [line])"

text \<open>\<open>Filter()\<close>: every list of the class is empty.\<close>

definition empty_filter :: rule_filter where
  "empty_filter = \<lparr>ptype_f = [], v0_f = [], v1_f = [], v2_f = [], v3_f = [], v4_f = [], v5_f = []\<rparr>"

text \<open>The rules of a model in the order \<open>save_policy\<close> visits them, each with its policy
  type: section \<open>p\<close>, then section \<open>g\<close>.\<close>

definition model_rules :: "policy_model \<Rightarrow> (string \<times> string list) list" where
  "model_rules model =
     concat (map (\<lambda>sec. case map_of model sec of
                          None \<Rightarrow> []
                        | Some items \<Rightarrow> concat (map (\<lambda>(p, policy). map (Pair p) policy) items))
                 [''p'', ''g''])"

text \<open>A row is the record of a rule: it has the policy type of the rule, its elements
  in the value fields in order, and the fields after them unset.\<close>

definition row_of_rule :: "casbin_rule \<Rightarrow> string \<times> string list \<Rightarrow> bool" where
  "row_of_rule r pr =
     (ptype r = fst pr \<and>
      (\<forall>k<6. values_of r ! k = (if k < length (snd pr) then Some (snd pr ! k) else None)))"

section \<open>Rows and their columns\<close>

lemma below_six: "i < 6 \<Longrightarrow> i = 0 \<or> i = 1 \<or> i = 2 \<or> i = 3 \<or> i = 4 \<or> i = (5::nat)"
  by arith

lemma length_values_of: "length (values_of r) = 6"
  by (simp add: values_of_def)

lemma casbin_rule_eqI:
  fixes a b :: casbin_rule
  assumes "id_col a = id_col b" and "ptype a = ptype b" and "values_of a = values_of b"
  shows "a = b"
  using assms by (cases a, cases b) (simp add: values_of_def)

lemma getattr_v_nth:
  "i < 6 \<Longrightarrow> \<exists>col. getattr_v i = Some col \<and> (\<forall>r. col r = values_of r ! i)"
  by (drule below_six) (auto simp: getattr_v_def values_of_def)

lemma getattr_v_none: "6 \<le> i \<Longrightarrow> getattr_v i = None"
  by (simp add: getattr_v_def)

lemma setattr_v_key: "id_col (setattr_v i v line) = id_col line"
  by (simp add: setattr_v_def)

lemma setattr_v_ptype: "ptype (setattr_v i v line) = ptype line"
  by (simp add: setattr_v_def)

lemma setattr_v_nth:
  "k < 6 \<Longrightarrow> values_of (setattr_v i v line) ! k = (if k = i then v else values_of line ! k)"
  by (drule below_six) (auto simp: setattr_v_def values_of_def)

lemma set_values_key: "id_col (set_values i vs line) = id_col line"
  by (induction vs arbitrary: i line) (simp_all add: setattr_v_key)

lemma set_values_ptype: "ptype (set_values i vs line) = ptype line"
  by (induction vs arbitrary: i line) (simp_all add: setattr_v_ptype)

lemma set_values_nth:
  "k < 6 \<Longrightarrow> values_of (set_values i vs line) ! k =
     (if i \<le> k \<and> k < i + length vs then Some (vs ! (k - i)) else values_of line ! k)"
proof (induction vs arbitrary: i line)
  case Nil
  then show ?case by auto
next
  case (Cons v vs)
  show ?case
  proof (cases "k = i")
    case True
    with Cons show ?thesis by (simp add: setattr_v_nth)
  next
    case False
    with Cons show ?thesis by (auto simp: setattr_v_nth nth_Cons')
  qed
qed

lemma values_of_new_line: "values_of (new_line p) = replicate 6 None"
  by (simp add: new_line_def values_of_def eval_nat_numeral)

lemma new_row_nth:
  "k < 6 \<Longrightarrow> values_of (set_values 0 rule (new_line p)) ! k =
     (if k < length rule then Some (rule ! k) else None)"
  by (simp add: set_values_nth values_of_new_line)

section \<open>Sessions\<close>

lemma session_scope_error_keeps:
  "session_scope B outcome tbl = (tbl', Inl e) \<Longrightarrow> tbl' = tbl"
  by (auto simp: session_scope_def split: sum.splits prod.splits)

lemma session_scope_nothing_pending:
  "session_scope B (Inr ([], x)) tbl = (tbl, Inr x)"
  by (simp add: session_scope_def)

lemma filter_not_deleted: "filter (\<lambda>r. r \<notin> set (filter c tbl)) tbl = filter (\<lambda>r. \<not> c r) tbl"
  by (rule filter_cong) auto

lemma session_scope_delete:
  "session_scope B (Inr ([Delete (filter c tbl)], x)) tbl = (filter (\<lambda>r. \<not> c r) tbl, Inr x)"
  using filter_not_deleted [of c tbl] by (simp add: session_scope_def)

lemma save_policy_line_cases:
  "save_policy_line B p rule tbl =
     (if B ((set_values 0 rule (new_line p))\<lparr>id_col := fresh_id tbl\<rparr>)
      then (insert_row p rule tbl, Inr ()) else (tbl, Inl StorageError))"
  by (simp add: save_policy_line_def session_scope_def insert_row_def Let_def)

section \<open>Adding rules\<close>

lemma add_policies_append:
  "add_policies B sec p (xs @ ys) tbl =
     (case add_policies B sec p xs tbl of
        (t, Inl e) \<Rightarrow> (t, Inl e)
      | (t, Inr u) \<Rightarrow> add_policies B sec p ys t)"
  by (induction xs arbitrary: tbl) (auto split: prod.splits sum.splits)

lemma add_policies_ok_rows:
  "add_policies B sec p rules tbl = (tbl', Inr u) \<Longrightarrow> tbl' = fold (insert_row p) rules tbl"
proof (induction rules arbitrary: tbl)
  case Nil
  then show ?case by simp
next
  case (Cons rule rules)
  then show ?case
    by (auto simp: save_policy_line_cases split: if_splits)
qed

text \<open>
  Claim C1, as the code has it. \<open>add_policies\<close> does not insert the batch in one
  transaction: every rule is written and committed by a session of its own. When the
  insert of a rule raises after the rules before it were inserted, the exception
  reaches the caller, the rows of the rules before it stay in the table, and neither
  the failing rule nor any rule after it is stored.
\<close>

theorem add_policies_commits_each_rule:
  assumes "add_policies B sec p rules1 tbl = (tbl1, Inr ())"
      and "save_policy_line B p rule tbl1 = (tbl2, Inl e)"
  shows "add_policies B sec p (rules1 @ rule # rules2) tbl
           = (fold (insert_row p) rules1 tbl, Inl e)"
proof -
  have "tbl2 = tbl1"
    using assms(2) by (auto simp: save_policy_line_cases split: if_splits)
  moreover have "tbl1 = fold (insert_row p) rules1 tbl"
    using assms(1) by (rule add_policies_ok_rows)
  ultimately show ?thesis
    using assms by (simp add: add_policies_append)
qed

text \<open>The statement above at a batch of two rules on a backend that enforces
  \<open>String(255)\<close>: the second rule has a value of 256 characters.\<close>

theorem add_policies_commits_each_rule_witness:
  "add_policies string255 ''p'' ''p'' [[''alice'', ''data1'', ''read'']] [] =
     ([\<lparr>id_col = 1, ptype = ''p'', v0 = Some ''alice'', v1 = Some ''data1'',
        v2 = Some ''read'', v3 = None, v4 = None, v5 = None\<rparr>], Inr ())
   \<and> save_policy_line string255 ''p'' [replicate 256 CHR ''a'']
        [\<lparr>id_col = 1, ptype = ''p'', v0 = Some ''alice'', v1 = Some ''data1'',
          v2 = Some ''read'', v3 = None, v4 = None, v5 = None\<rparr>] =
     ([\<lparr>id_col = 1, ptype = ''p'', v0 = Some ''alice'', v1 = Some ''data1'',
        v2 = Some ''read'', v3 = None, v4 = None, v5 = None\<rparr>], Inl StorageError)
   \<and> add_policies string255 ''p'' ''p''
        ([[''alice'', ''data1'', ''read'']] @ [replicate 256 CHR ''a''] # []) [] =
     (fold (insert_row ''p'') [[''alice'', ''data1'', ''read'']] [], Inl StorageError)"
proof -
  let ?row = "\<lparr>id_col = 1, ptype = ''p'', v0 = Some ''alice'', v1 = Some ''data1'',
               v2 = Some ''read'', v3 = None, v4 = None, v5 = None\<rparr>"
  have h1: "add_policies string255 ''p'' ''p'' [[''alice'', ''data1'', ''read'']] [] = ([?row], Inr ())"
    by (simp add: save_policy_line_def session_scope_def new_line_def setattr_v_def
        fresh_id_def string255_def values_of_def fits_def)
  have h2: "save_policy_line string255 ''p'' [replicate 256 CHR ''a''] [?row] = ([?row], Inl StorageError)"
    by (simp add: save_policy_line_def session_scope_def new_line_def setattr_v_def
        fresh_id_def string255_def values_of_def fits_def)
  from add_policies_commits_each_rule [OF h1 h2, where ?rules2.0 = "[]"] h1 h2
  show ?thesis by simp
qed

text \<open>
  Claim C1, as stated, fails: on a backend that enforces \<open>String(255)\<close>, a batch whose
  second rule is refused raises, and the row of the first rule of the batch is in the
  table afterwards, which was empty before.
\<close>

theorem add_policies_not_atomic_counterexample:
  "add_policies string255 ''p'' ''p''
     [[''alice'', ''data1'', ''read''], [replicate 256 CHR ''a'']] [] =
   ([\<lparr>id_col = 1, ptype = ''p'', v0 = Some ''alice'', v1 = Some ''data1'',
      v2 = Some ''read'', v3 = None, v4 = None, v5 = None\<rparr>], Inl StorageError)"
  by (simp add: save_policy_line_def session_scope_def new_line_def setattr_v_def
      fresh_id_def string255_def values_of_def fits_def)

text \<open>The line-insert primitive on a rule of more than six elements.\<close>

lemma save_policy_line_long_rule:
  assumes "6 < length rule"
  shows "save_policy_line B p rule tbl =
           (let row = \<lparr>id_col = fresh_id tbl, ptype = p, v0 = Some (rule ! 0),
                        v1 = Some (rule ! 1), v2 = Some (rule ! 2), v3 = Some (rule ! 3),
                        v4 = Some (rule ! 4), v5 = Some (rule ! 5)\<rparr>
            in if B row then (tbl @ [row], Inr ()) else (tbl, Inl StorageError))"
proof -
  let ?row = "\<lparr>id_col = fresh_id tbl, ptype = p, v0 = Some (rule ! 0),
                v1 = Some (rule ! 1), v2 = Some (rule ! 2), v3 = Some (rule ! 3),
                v4 = Some (rule ! 4), v5 = Some (rule ! 5)\<rparr>"
  let ?line = "(set_values 0 rule (new_line p))\<lparr>id_col := fresh_id tbl\<rparr>"
  have vals: "values_of ?line = values_of (set_values 0 rule (new_line p))"
    by (simp add: values_of_def)
  have "values_of ?line = values_of ?row"
  proof (rule nth_equalityI)
    show "length (values_of ?line) = length (values_of ?row)"
      by (simp add: length_values_of)
  next
    fix k assume "k < length (values_of ?line)"
    then have k: "k < 6" by (simp add: length_values_of)
    with assms have "values_of ?line ! k = Some (rule ! k)"
      by (simp add: vals new_row_nth)
    moreover from k have "values_of ?row ! k = Some (rule ! k)"
      by (auto dest!: below_six simp: values_of_def)
    ultimately show "values_of ?line ! k = values_of ?row ! k" by simp
  qed
  moreover have "id_col ?line = id_col ?row" by simp
  moreover have "ptype ?line = ptype ?row"
    by (simp add: set_values_ptype new_line_def)
  ultimately have "?line = ?row" by (intro casbin_rule_eqI)
  then show ?thesis
    by (simp add: save_policy_line_cases insert_row_def Let_def)
qed

text \<open>
  Claim C2, as the code has it. The insert path has no check of the length of the
  rule. A rule of more than six elements raises no error of its own: the row that is
  stored has the first six elements in \<open>v0\<close> to \<open>v5\<close>, the elements after the sixth
  are stored in no column, and the only failure is that of the backend refusing that
  row.
\<close>

theorem add_policy_long_rule_is_truncated:
  assumes "6 < length rule"
  shows "add_policy B sec p rule tbl =
           (let row = \<lparr>id_col = fresh_id tbl, ptype = p, v0 = Some (rule ! 0),
                        v1 = Some (rule ! 1), v2 = Some (rule ! 2), v3 = Some (rule ! 3),
                        v4 = Some (rule ! 4), v5 = Some (rule ! 5)\<rparr>
            in if B row then (tbl @ [row], Inr ()) else (tbl, Inl StorageError))"
  unfolding add_policy_def using assms by (rule save_policy_line_long_rule)

theorem add_policy_long_rule_is_truncated_witness:
  "6 < length [''a'', ''b'', ''c'', ''d'', ''e'', ''f'', ''g'']
   \<and> add_policy accept_all ''p'' ''p'' [''a'', ''b'', ''c'', ''d'', ''e'', ''f'', ''g''] [] =
     ([\<lparr>id_col = 1, ptype = ''p'', v0 = Some ''a'', v1 = Some ''b'', v2 = Some ''c'',
        v3 = Some ''d'', v4 = Some ''e'', v5 = Some ''f''\<rparr>], Inr ())"
proof -
  have h: "6 < length [''a'', ''b'', ''c'', ''d'', ''e'', ''f'', ''g'']" by simp
  from add_policy_long_rule_is_truncated [OF h, of accept_all "''p''" "''p''" "[]"] h
  show ?thesis by (simp add: accept_all_def fresh_id_def)
qed

text \<open>
  Claim C2, as stated, fails: a rule of seven elements is not rejected, the call
  returns normally and the stored row holds the first six elements; and on a backend
  that accepts every row no rule of more than six elements is rejected.
\<close>

theorem add_policy_long_rule_counterexample:
  "add_policy accept_all ''p'' ''p'' [''a'', ''b'', ''c'', ''d'', ''e'', ''f'', ''g''] [] =
     ([\<lparr>id_col = 1, ptype = ''p'', v0 = Some ''a'', v1 = Some ''b'', v2 = Some ''c'',
        v3 = Some ''d'', v4 = Some ''e'', v5 = Some ''f''\<rparr>], Inr ())
   \<and> \<not> (\<exists>rule. 6 < length rule
            \<and> (\<exists>e. snd (add_policy accept_all ''p'' ''p'' rule []) = Inl e))"
proof
  show "add_policy accept_all ''p'' ''p'' [''a'', ''b'', ''c'', ''d'', ''e'', ''f'', ''g''] [] =
     ([\<lparr>id_col = 1, ptype = ''p'', v0 = Some ''a'', v1 = Some ''b'', v2 = Some ''c'',
        v3 = Some ''d'', v4 = Some ''e'', v5 = Some ''f''\<rparr>], Inr ())"
    by (simp add: add_policy_def save_policy_line_def session_scope_def new_line_def
        setattr_v_def fresh_id_def accept_all_def)
next
  show "\<not> (\<exists>rule. 6 < length rule
            \<and> (\<exists>e. snd (add_policy accept_all ''p'' ''p'' rule []) = Inl e))"
  proof
    assume "\<exists>rule. 6 < length rule
            \<and> (\<exists>e. snd (add_policy accept_all ''p'' ''p'' rule []) = Inl e)"
    then obtain rule e where long: "6 < length rule"
      and rej: "snd (add_policy accept_all ''p'' ''p'' rule []) = Inl e"
      by blast
    from save_policy_line_long_rule [OF long, of accept_all "''p''" "[]"] rej
    show False by (simp add: add_policy_def accept_all_def Let_def)
  qed
qed

section \<open>Locating rows\<close>

lemma cond_filter_q: "cond (filter_q q c) r = (cond q r \<and> c r)"
  by (simp add: filter_q_def)

lemma ordered_filter_q: "ordered (filter_q q c) = ordered q"
  by (simp add: filter_q_def)

lemma filter_rule_ok:
  "i + length vs \<le> 6 \<Longrightarrow>
     \<exists>q'. filter_rule q i vs = Inr q' \<and> ordered q' = ordered q \<and>
          (\<forall>r. cond q' r = (cond q r \<and> (\<forall>k<length vs. values_of r ! (i + k) = Some (vs ! k))))"
proof (induction vs arbitrary: q i)
  case Nil
  then show ?case by simp
next
  case (Cons v vs)
  from Cons.prems have i: "i < 6" and rest: "Suc i + length vs \<le> 6" by simp_all
  from getattr_v_nth [OF i] obtain col where
    col: "getattr_v i = Some col" "\<And>r. col r = values_of r ! i" by blast
  from Cons.IH [OF rest, of "filter_q q (eq_col col v)"] obtain q' where
    q': "filter_rule (filter_q q (eq_col col v)) (Suc i) vs = Inr q'"
        "ordered q' = ordered q"
        "\<And>r. cond q' r = ((cond q r \<and> col r = Some v) \<and>
              (\<forall>k<length vs. values_of r ! (Suc i + k) = Some (vs ! k)))"
    by (auto simp: cond_filter_q ordered_filter_q eq_col_def)
  have "\<And>r. cond q' r = (cond q r \<and> (\<forall>k<length (v # vs). values_of r ! (i + k) = Some ((v # vs) ! k)))"
    by (auto simp: q'(3) col(2) All_less_Suc2 simp del: length_Cons)
  with col q' show ?case by simp
qed

lemma filter_rule_error:
  "6 < i + length vs \<Longrightarrow> vs \<noteq> [] \<Longrightarrow> filter_rule q i vs = Inl AttributeError"
proof (induction vs arbitrary: q i)
  case Nil
  then show ?case by simp
next
  case (Cons v vs)
  show ?case
  proof (cases "i < 6")
    case True
    then obtain col where col: "getattr_v i = Some col" using getattr_v_nth by blast
    from True Cons.prems have "vs \<noteq> []" "6 < Suc i + length vs" by auto
    with Cons.IH col show ?thesis by simp
  next
    case False
    then show ?thesis by (simp add: getattr_v_none)
  qed
qed

lemma all_q_unordered: "\<not> ordered q \<Longrightarrow> all_q q tbl = filter (cond q) tbl"
  by (simp add: all_q_def)

lemma matches_too_long: "6 < length rule \<Longrightarrow> \<not> matches p rule r"
  by (auto simp: matches_def)

lemma located_rule:
  assumes "length rule \<le> 6"
  obtains q where "filter_rule (filter_q query_db (\<lambda>r. ptype r = p)) 0 rule = Inr q"
    and "\<not> ordered q" and "cond q = matches p rule"
proof -
  from assms have "0 + length rule \<le> 6" by simp
  from filter_rule_ok [OF this, of "filter_q query_db (\<lambda>r. ptype r = p)"]
  obtain q where q: "filter_rule (filter_q query_db (\<lambda>r. ptype r = p)) 0 rule = Inr q"
    "ordered q = ordered (filter_q query_db (\<lambda>r. ptype r = p))"
    "\<And>r. cond q r = (cond (filter_q query_db (\<lambda>r. ptype r = p)) r \<and>
            (\<forall>k<length rule. values_of r ! (0 + k) = Some (rule ! k)))"
    by blast
  have "cond q = matches p rule"
    using assms by (auto simp: fun_eq_iff q(3) matches_def cond_filter_q query_db_def)
  moreover have "\<not> ordered q"
    by (simp add: q(2) ordered_filter_q query_db_def)
  ultimately show ?thesis using q(1) that by blast
qed

lemma matches_code:
  "matches p rule r =
     (ptype r = p \<and> length rule \<le> 6 \<and> take (length rule) (values_of r) = map Some rule)"
proof (cases "length rule \<le> 6")
  case True
  then show ?thesis
    by (auto simp: matches_def list_eq_iff_nth_eq length_values_of)
next
  case False
  then show ?thesis by (simp add: matches_too_long)
qed

lemma fold_setattr_key: "id_col (fold (\<lambda>index line. setattr_v index (g index) line) is line) = id_col line"
  by (induction "is" arbitrary: line) (simp_all add: setattr_v_key)

lemma fold_setattr_ptype: "ptype (fold (\<lambda>index line. setattr_v index (g index) line) is line) = ptype line"
  by (induction "is" arbitrary: line) (simp_all add: setattr_v_ptype)

lemma fold_setattr_nth:
  "k < 6 \<Longrightarrow>
   values_of (fold (\<lambda>index line. setattr_v index (g index) line) [0..<n] line) ! k =
     (if k < n then g k else values_of line ! k)"
  by (induction n) (auto simp: setattr_v_nth less_Suc_eq)

lemma overwrite_fold:
  "overwrite longest_rule new_rule line =
     fold (\<lambda>index line. setattr_v index
             (if index < length new_rule then Some (new_rule ! index) else None) line)
          [0..<length longest_rule] line"
  unfolding overwrite_def by (rule arg_cong [where f = "\<lambda>f. fold f _ _"]) (auto simp: fun_eq_iff)

lemma filter_any_ok:
  "i + length cols \<le> 6 \<Longrightarrow>
     \<exists>q'. filter_any q i cols = Inr q' \<and> ordered q' = ordered q \<and>
          (\<forall>r. cond q' r =
                (cond q r \<and> (\<forall>k<length cols. \<exists>v\<in>set (cols ! k). values_of r ! (i + k) = Some v)))"
proof (induction cols arbitrary: q i)
  case Nil
  then show ?case by simp
next
  case (Cons c cols)
  from Cons.prems have i: "i < 6" and rest: "Suc i + length cols \<le> 6" by simp_all
  from getattr_v_nth [OF i] obtain col where
    col: "getattr_v i = Some col" "\<And>r. col r = values_of r ! i" by blast
  let ?q = "filter_q q (\<lambda>r. list_ex (\<lambda>v. eq_col col v r) c)"
  from Cons.IH [OF rest, of ?q] obtain q' where
    q': "filter_any ?q (Suc i) cols = Inr q'"
        "ordered q' = ordered q"
        "\<And>r. cond q' r = ((cond q r \<and> (\<exists>v\<in>set c. col r = Some v)) \<and>
              (\<forall>k<length cols. \<exists>v\<in>set (cols ! k). values_of r ! (Suc i + k) = Some v))"
    by (auto simp: cond_filter_q ordered_filter_q eq_col_def list_ex_iff)
  have "\<And>r. cond q' r = (cond q r \<and>
          (\<forall>k<length (c # cols). \<exists>v\<in>set ((c # cols) ! k). values_of r ! (i + k) = Some v))"
    by (auto simp: q'(3) col(2) All_less_Suc2 simp del: length_Cons)
  with col q' show ?case by simp
qed

lemma filter_any_error:
  "6 < i + length cols \<Longrightarrow> cols \<noteq> [] \<Longrightarrow> filter_any q i cols = Inl AttributeError"
proof (induction cols arbitrary: q i)
  case Nil
  then show ?case by simp
next
  case (Cons c cols)
  show ?case
  proof (cases "i < 6")
    case True
    then obtain col where col: "getattr_v i = Some col" using getattr_v_nth by blast
    from True Cons.prems have "cols \<noteq> []" "6 < Suc i + length cols" by auto
    with Cons.IH col show ?thesis by simp
  next
    case False
    then show ?thesis by (simp add: getattr_v_none)
  qed
qed

lemma length_zip_star: "rules \<noteq> [] \<Longrightarrow> length (zip_star rules) = Min (set (map length rules))"
  by (simp add: zip_star_def)

lemma zip_star_nth:
  "rules \<noteq> [] \<Longrightarrow> k < Min (set (map length rules)) \<Longrightarrow>
     zip_star rules ! k = map (\<lambda>rule. rule ! k) rules"
  by (simp add: zip_star_def)

lemma relaxed_match_too_long: "6 < Min (set (map length rules)) \<Longrightarrow> \<not> relaxed_match p rules r"
  by (auto simp: relaxed_match_def)

section \<open>Updating a rule\<close>

text \<open>
  Claim C4. Whenever the number of rows that match \<open>ptype\<close> and every position of
  \<open>old_rule\<close> is not one, \<open>update_policy\<close> raises and the table is left exactly as it
  was, so no row is picked and modified. The exception is NoResultFound when no row
  matches, MultipleResultsFound when several do, and AttributeError when \<open>old_rule\<close> has
  more than six elements (no row has a seventh position to match).
\<close>

theorem update_policy_cardinality:
  assumes "length (filter (matches p old_rule) tbl) \<noteq> 1"
  shows "update_policy B sec p old_rule new_rule tbl =
           (tbl, Inl (if 6 < length old_rule then AttributeError
                      else if filter (matches p old_rule) tbl = [] then NoResultFound
                      else MultipleResultsFound))"
proof (cases "6 < length old_rule")
  case True
  then have "filter_rule (filter_q query_db (\<lambda>r. ptype r = p)) 0 old_rule = Inl AttributeError"
    by (intro filter_rule_error) auto
  with True show ?thesis
    by (simp add: update_policy_def session_scope_def)
next
  case False
  then have "length old_rule \<le> 6" by simp
  then obtain q where q: "filter_rule (filter_q query_db (\<lambda>r. ptype r = p)) 0 old_rule = Inr q"
    "\<not> ordered q" "cond q = matches p old_rule"
    by (rule located_rule)
  have "all_q q tbl = filter (matches p old_rule) tbl"
    using q by (simp add: all_q_unordered)
  with assms have "one_q q tbl = Inl (if filter (matches p old_rule) tbl = [] then NoResultFound
                      else MultipleResultsFound)"
    by (auto simp: one_q_def split: list.splits)
  with False q(1) show ?thesis
    by (simp add: update_policy_def session_scope_def)
qed

theorem update_policy_cardinality_witness:
  "length (filter (matches ''p'' [''alice'', ''data1''])
     [\<lparr>id_col = 1, ptype = ''p'', v0 = Some ''alice'', v1 = Some ''data1'',
        v2 = Some ''read'', v3 = None, v4 = None, v5 = None\<rparr>,
      \<lparr>id_col = 2, ptype = ''p'', v0 = Some ''alice'', v1 = Some ''data1'',
        v2 = Some ''write'', v3 = None, v4 = None, v5 = None\<rparr>]) \<noteq> 1
   \<and> update_policy accept_all ''p'' ''p'' [''alice'', ''data1''] [''bob'', ''data2'']
     [\<lparr>id_col = 1, ptype = ''p'', v0 = Some ''alice'', v1 = Some ''data1'',
        v2 = Some ''read'', v3 = None, v4 = None, v5 = None\<rparr>,
      \<lparr>id_col = 2, ptype = ''p'', v0 = Some ''alice'', v1 = Some ''data1'',
        v2 = Some ''write'', v3 = None, v4 = None, v5 = None\<rparr>] =
     ([\<lparr>id_col = 1, ptype = ''p'', v0 = Some ''alice'', v1 = Some ''data1'',
        v2 = Some ''read'', v3 = None, v4 = None, v5 = None\<rparr>,
      \<lparr>id_col = 2, ptype = ''p'', v0 = Some ''alice'', v1 = Some ''data1'',
        v2 = Some ''write'', v3 = None, v4 = None, v5 = None\<rparr>], Inl MultipleResultsFound)"
proof -
  let ?tbl = "[\<lparr>id_col = 1, ptype = ''p'', v0 = Some ''alice'', v1 = Some ''data1'',
        v2 = Some ''read'', v3 = None, v4 = None, v5 = None\<rparr>,
      \<lparr>id_col = 2, ptype = ''p'', v0 = Some ''alice'', v1 = Some ''data1'',
        v2 = Some ''write'', v3 = None, v4 = None, v5 = None\<rparr>]"
  have h: "length (filter (matches ''p'' [''alice'', ''data1'']) ?tbl) \<noteq> 1"
    by (simp add: matches_code values_of_def)
  from update_policy_cardinality [OF h, of accept_all "''p''" "[''bob'', ''data2'']"] h
  show ?thesis by (simp add: matches_code values_of_def)
qed

text \<open>
  Claim C5. When exactly one row \<open>r\<close> matches, \<open>update_policy\<close> replaces it by a row
  \<open>r'\<close> with the same key and policy type whose value fields are, position by
  position: the element of \<open>new_rule\<close> at every position below the length of
  \<open>new_rule\<close>; unset at every position from there up to the length of \<open>old_rule\<close>;
  and the old value at every position beyond both lengths. Every other row is
  unchanged. The update fails only when the backend refuses the new row.
\<close>

theorem update_policy_overwrites_positions:
  assumes "filter (matches p old_rule) tbl = [r]"
  shows "\<exists>r'. id_col r' = id_col r \<and> ptype r' = ptype r
           \<and> (\<forall>i<6. values_of r' ! i =
                 (if i < length new_rule then Some (new_rule ! i)
                  else if i < length old_rule then None
                  else values_of r ! i))
           \<and> update_policy B sec p old_rule new_rule tbl =
               (if B r' then (map (\<lambda>x. if x = r then r' else x) tbl, Inr ())
                else (tbl, Inl StorageError))"
proof -
  let ?longest = "if length old_rule > length new_rule then old_rule else new_rule"
  let ?r' = "overwrite ?longest new_rule r"
  have "r \<in> set (filter (matches p old_rule) tbl)" using assms by simp
  then have "matches p old_rule r" by simp
  then have "length old_rule \<le> 6" by (simp add: matches_code)
  then obtain q where q: "filter_rule (filter_q query_db (\<lambda>r. ptype r = p)) 0 old_rule = Inr q"
    "\<not> ordered q" "cond q = matches p old_rule"
    by (rule located_rule)
  have "one_q q tbl = Inr r"
    using q assms by (simp add: one_q_def all_q_unordered)
  with q(1) have run: "update_policy B sec p old_rule new_rule tbl =
      (if B ?r' then (map (\<lambda>x. if x = r then ?r' else x) tbl, Inr ())
       else (tbl, Inl StorageError))"
    by (simp add: update_policy_def session_scope_def Let_def)
  have "id_col ?r' = id_col r" "ptype ?r' = ptype r"
    by (simp_all only: overwrite_fold fold_setattr_key fold_setattr_ptype)
  moreover have "\<forall>i<6. values_of ?r' ! i =
                 (if i < length new_rule then Some (new_rule ! i)
                  else if i < length old_rule then None
                  else values_of r ! i)"
    by (auto simp: overwrite_fold fold_setattr_nth)
  ultimately show ?thesis using run by blast
qed

theorem update_policy_overwrites_positions_witness:
  "filter (matches ''p'' [''alice'', ''data1'', ''read''])
     [\<lparr>id_col = 1, ptype = ''p'', v0 = Some ''alice'', v1 = Some ''data1'',
        v2 = Some ''read'', v3 = None, v4 = None, v5 = None\<rparr>,
      \<lparr>id_col = 2, ptype = ''p'', v0 = Some ''bob'', v1 = Some ''data2'',
        v2 = Some ''write'', v3 = None, v4 = None, v5 = None\<rparr>] =
     [\<lparr>id_col = 1, ptype = ''p'', v0 = Some ''alice'', v1 = Some ''data1'',
        v2 = Some ''read'', v3 = None, v4 = None, v5 = None\<rparr>]
   \<and> update_policy accept_all ''p'' ''p'' [''alice'', ''data1'', ''read''] [''alice'', ''data1'']
     [\<lparr>id_col = 1, ptype = ''p'', v0 = Some ''alice'', v1 = Some ''data1'',
        v2 = Some ''read'', v3 = None, v4 = None, v5 = None\<rparr>,
      \<lparr>id_col = 2, ptype = ''p'', v0 = Some ''bob'', v1 = Some ''data2'',
        v2 = Some ''write'', v3 = None, v4 = None, v5 = None\<rparr>] =
     ([\<lparr>id_col = 1, ptype = ''p'', v0 = Some ''alice'', v1 = Some ''data1'',
        v2 = None, v3 = None, v4 = None, v5 = None\<rparr>,
      \<lparr>id_col = 2, ptype = ''p'', v0 = Some ''bob'', v1 = Some ''data2'',
        v2 = Some ''write'', v3 = None, v4 = None, v5 = None\<rparr>], Inr ())"
proof -
  let ?r1 = "\<lparr>id_col = 1, ptype = ''p'', v0 = Some ''alice'', v1 = Some ''data1'',
        v2 = Some ''read'', v3 = None, v4 = None, v5 = None\<rparr>"
  let ?r2 = "\<lparr>id_col = 2, ptype = ''p'', v0 = Some ''bob'', v1 = Some ''data2'',
        v2 = Some ''write'', v3 = None, v4 = None, v5 = None\<rparr>"
  let ?new = "\<lparr>id_col = 1, ptype = ''p'', v0 = Some ''alice'', v1 = Some ''data1'',
        v2 = None, v3 = None, v4 = None, v5 = None\<rparr>"
  have h: "filter (matches ''p'' [''alice'', ''data1'', ''read'']) [?r1, ?r2] = [?r1]"
    by (simp add: matches_code values_of_def)
  from update_policy_overwrites_positions [OF h, of "[''alice'', ''data1'']" accept_all "''p''"]
  obtain r' where r': "id_col r' = id_col ?r1" "ptype r' = ptype ?r1"
      "\<forall>i<6. values_of r' ! i =
          (if i < length [''alice'', ''data1''] then Some ([''alice'', ''data1''] ! i)
           else if i < length [''alice'', ''data1'', ''read''] then None
           else values_of ?r1 ! i)"
      "update_policy accept_all ''p'' ''p'' [''alice'', ''data1'', ''read''] [''alice'', ''data1'']
         [?r1, ?r2] =
       (if accept_all r' then (map (\<lambda>x. if x = ?r1 then r' else x) [?r1, ?r2], Inr ())
        else ([?r1, ?r2], Inl StorageError))"
    by blast
  have "values_of r' = values_of ?new"
  proof (rule nth_equalityI)
    show "length (values_of r') = length (values_of ?new)" by (simp add: length_values_of)
  next
    fix k assume "k < length (values_of r')"
    then have "k < 6" by (simp add: length_values_of)
    with r'(3) show "values_of r' ! k = values_of ?new ! k"
      by (auto dest!: below_six simp: values_of_def)
  qed
  with r'(1,2) have "r' = ?new" by (intro casbin_rule_eqI) simp_all
  with r'(4) h show ?thesis by (simp add: accept_all_def)
qed

section \<open>Removing rules\<close>

text \<open>
  Claim C6. \<open>remove_policies\<close> with an empty rule list returns at once and leaves the
  table as it is. With a non-empty list it deletes exactly the rows with the given
  policy type whose value at every constrained position is the element of some input
  rule at that position; the positions are constrained one by one, so a row that takes
  its values from different input rules is deleted too. When even the shortest rule
  has more than six elements no row can match, nothing is deleted and the call raises
  AttributeError.
\<close>

theorem remove_policies_relaxed:
  "remove_policies B sec p [] tbl = (tbl, Inr ()) \<and>
   (rules \<noteq> [] \<longrightarrow>
      remove_policies B sec p rules tbl =
        (filter (\<lambda>r. \<not> relaxed_match p rules r) tbl,
         if Min (set (map length rules)) \<le> 6 then Inr () else Inl AttributeError))"
proof (intro conjI impI)
  show "remove_policies B sec p [] tbl = (tbl, Inr ())"
    by (simp add: remove_policies_def)
next
  assume ne: "rules \<noteq> []"
  let ?n = "Min (set (map length rules))"
  let ?q0 = "filter_q query_db (\<lambda>r. ptype r = p)"
  show "remove_policies B sec p rules tbl =
        (filter (\<lambda>r. \<not> relaxed_match p rules r) tbl,
         if ?n \<le> 6 then Inr () else Inl AttributeError)"
  proof (cases "?n \<le> 6")
    case True
    with ne have "0 + length (zip_star rules) \<le> 6" by (simp add: length_zip_star)
    from filter_any_ok [OF this, of ?q0] obtain q where
      q: "filter_any ?q0 0 (zip_star rules) = Inr q"
         "\<And>r. cond q r = (cond ?q0 r \<and>
            (\<forall>k<length (zip_star rules). \<exists>v\<in>set (zip_star rules ! k). values_of r ! (0 + k) = Some v))"
      by blast
    have "cond q r = relaxed_match p rules r" for r
    proof -
      define n where "n = Min (set (map length rules))"
      have len: "length (zip_star rules) = n"
        using ne by (simp add: length_zip_star n_def)
      have col: "zip_star rules ! k = map (\<lambda>rule. rule ! k) rules" if "k < n" for k
        using ne that by (simp add: zip_star_nth n_def)
      have n: "n \<le> 6" using True by (simp add: n_def)
      have "cond q r = (ptype r = p \<and> (\<forall>k<n. \<exists>v\<in>set (zip_star rules ! k). values_of r ! k = Some v))"
        by (simp add: q(2) len cond_filter_q query_db_def)
      also have "\<dots> = (ptype r = p \<and> (\<forall>k<n. k < 6 \<and> (\<exists>rule\<in>set rules. values_of r ! k = Some (rule ! k))))"
        using n by (auto simp: col)
      also have "\<dots> = relaxed_match p rules r"
        by (simp only: relaxed_match_def n_def)
      finally show ?thesis .
    qed
    then have "cond q = relaxed_match p rules" by (simp add: fun_eq_iff)
    with q(1) ne True show ?thesis
      by (simp add: remove_policies_def delete_q_def Let_def session_scope_delete)
  next
    case False
    have long: "6 < 0 + length (zip_star rules)"
      unfolding length_zip_star [OF ne] using False by linarith
    then have "zip_star rules \<noteq> []" by auto
    with long have "filter_any ?q0 0 (zip_star rules) = Inl AttributeError"
      by (rule filter_any_error)
    moreover from False have "filter (\<lambda>r. \<not> relaxed_match p rules r) tbl = tbl"
      by (simp add: relaxed_match_too_long)
    ultimately show ?thesis using ne False
      by (simp add: remove_policies_def session_scope_def)
  qed
qed

theorem remove_policies_relaxed_witness:
  "[[''alice'', ''data1''], [''bob'', ''data2'']] \<noteq> []
   \<and> remove_policies accept_all ''p'' ''p'' [[''alice'', ''data1''], [''bob'', ''data2'']]
     [\<lparr>id_col = 1, ptype = ''p'', v0 = Some ''alice'', v1 = Some ''data2'',
        v2 = Some ''read'', v3 = None, v4 = None, v5 = None\<rparr>,
      \<lparr>id_col = 2, ptype = ''p'', v0 = Some ''carol'', v1 = Some ''data1'',
        v2 = None, v3 = None, v4 = None, v5 = None\<rparr>] =
     ([\<lparr>id_col = 2, ptype = ''p'', v0 = Some ''carol'', v1 = Some ''data1'',
        v2 = None, v3 = None, v4 = None, v5 = None\<rparr>], Inr ())
   \<and> filter (\<lambda>r. \<not> relaxed_match ''p'' [[''alice'', ''data1''], [''bob'', ''data2'']] r)
     [\<lparr>id_col = 1, ptype = ''p'', v0 = Some ''alice'', v1 = Some ''data2'',
        v2 = Some ''read'', v3 = None, v4 = None, v5 = None\<rparr>,
      \<lparr>id_col = 2, ptype = ''p'', v0 = Some ''carol'', v1 = Some ''data1'',
        v2 = None, v3 = None, v4 = None, v5 = None\<rparr>] =
     [\<lparr>id_col = 2, ptype = ''p'', v0 = Some ''carol'', v1 = Some ''data1'',
        v2 = None, v3 = None, v4 = None, v5 = None\<rparr>]"
proof -
  let ?rules = "[[''alice'', ''data1''], [''bob'', ''data2'']]"
  let ?r1 = "\<lparr>id_col = 1, ptype = ''p'', v0 = Some ''alice'', v1 = Some ''data2'',
        v2 = Some ''read'', v3 = None, v4 = None, v5 = None\<rparr>"
  let ?r2 = "\<lparr>id_col = 2, ptype = ''p'', v0 = Some ''carol'', v1 = Some ''data1'',
        v2 = None, v3 = None, v4 = None, v5 = None\<rparr>"
  have e: "remove_policies accept_all ''p'' ''p'' ?rules [?r1, ?r2] = ([?r2], Inr ())"
    by code_simp
  have ne: "?rules \<noteq> []" by simp
  from remove_policies_relaxed [of accept_all "''p''" "''p''" "[?r1, ?r2]" ?rules] ne
  have "remove_policies accept_all ''p'' ''p'' ?rules [?r1, ?r2] =
        (filter (\<lambda>r. \<not> relaxed_match ''p'' ?rules r) [?r1, ?r2],
         if Min (set (map length ?rules)) \<le> 6 then Inr () else Inl AttributeError)"
    by blast
  with e have "filter (\<lambda>r. \<not> relaxed_match ''p'' ?rules r) [?r1, ?r2] = [?r2]"
    by (simp only: prod.inject)
  with e ne show ?thesis by (intro conjI)
qed

lemma getattr_int_nat: "0 \<le> k \<Longrightarrow> getattr_int k = getattr_v (nat k)"
  by (simp add: getattr_int_def)

lemma filter_values_ok:
  "0 \<le> fi \<Longrightarrow> nat fi + i + length vs \<le> 6 \<Longrightarrow>
     \<exists>q'. filter_values q fi i vs = Inr q' \<and> ordered q' = ordered q \<and>
          (\<forall>r. cond q' r =
                (cond q r \<and>
                 (\<forall>k<length vs. vs ! k \<noteq> [] \<longrightarrow> values_of r ! (nat fi + i + k) = Some (vs ! k))))"
proof (induction vs arbitrary: q i)
  case Nil
  then show ?case by simp
next
  case (Cons v vs)
  from Cons.prems have i: "nat fi + i < 6" and rest: "nat fi + Suc i + length vs \<le> 6"
    by simp_all
  from getattr_v_nth [OF i] obtain col where
    col: "getattr_v (nat fi + i) = Some col" "\<And>r. col r = values_of r ! (nat fi + i)" by blast
  from Cons.prems(1) have idx: "getattr_int (fi + int i) = Some col"
    using col(1) by (simp add: getattr_int_def nat_add_distrib)
  show ?case
  proof (cases "v = []")
    case True
    from Cons.IH [OF Cons.prems(1) rest, of q] obtain q' where
      q': "filter_values q fi (Suc i) vs = Inr q'" "ordered q' = ordered q"
          "\<And>r. cond q' r = (cond q r \<and>
             (\<forall>k<length vs. vs ! k \<noteq> [] \<longrightarrow> values_of r ! (nat fi + Suc i + k) = Some (vs ! k)))"
      by blast
    have "\<And>r. cond q' r = (cond q r \<and>
          (\<forall>k<length (v # vs). (v # vs) ! k \<noteq> [] \<longrightarrow>
               values_of r ! (nat fi + i + k) = Some ((v # vs) ! k)))"
      using True by (auto simp: q'(3) All_less_Suc2 simp del: length_Cons)
    with True q' show ?thesis by simp
  next
    case False
    from Cons.IH [OF Cons.prems(1) rest, of "filter_q q (eq_col col v)"] obtain q' where
      q': "filter_values (filter_q q (eq_col col v)) fi (Suc i) vs = Inr q'" "ordered q' = ordered q"
          "\<And>r. cond q' r = ((cond q r \<and> col r = Some v) \<and>
             (\<forall>k<length vs. vs ! k \<noteq> [] \<longrightarrow> values_of r ! (nat fi + Suc i + k) = Some (vs ! k)))"
      by (auto simp: cond_filter_q ordered_filter_q eq_col_def)
    have "\<And>r. cond q' r = (cond q r \<and>
          (\<forall>k<length (v # vs). (v # vs) ! k \<noteq> [] \<longrightarrow>
               values_of r ! (nat fi + i + k) = Some ((v # vs) ! k)))"
      using False by (auto simp: q'(3) col(2) All_less_Suc2 simp del: length_Cons)
    with False idx q' show ?thesis by simp
  qed
qed

text \<open>
  Claim C8. \<open>remove_filtered_policy\<close> with \<open>field_index\<close> outside 0..5, or with
  \<open>field_index + len(field_values)\<close> outside 1..6, returns False and leaves the table
  as it is. Otherwise it deletes exactly the rows with the given policy type whose
  field at every offset from \<open>field_index\<close> equals the value given there, the empty
  string constraining nothing, and returns True exactly when a row was deleted.
\<close>

theorem remove_filtered_policy_bounds:
  "remove_filtered_policy B sec p field_index field_values tbl =
     (if 0 \<le> field_index \<and> field_index \<le> 5
         \<and> 1 \<le> field_index + int (length field_values)
         \<and> field_index + int (length field_values) \<le> 6
      then (filter (\<lambda>r. \<not> filtered_match p (nat field_index) field_values r) tbl,
            Inr (\<exists>r\<in>set tbl. filtered_match p (nat field_index) field_values r))
      else (tbl, Inr False))"
proof (cases "0 \<le> field_index \<and> field_index \<le> 5
         \<and> 1 \<le> field_index + int (length field_values)
         \<and> field_index + int (length field_values) \<le> 6")
  case False
  then show ?thesis
    by (auto simp: remove_filtered_policy_def session_scope_nothing_pending)
next
  case True
  let ?q0 = "filter_q query_db (\<lambda>r. ptype r = p)"
  from True have nn: "0 \<le> field_index" and fit: "nat field_index + 0 + length field_values \<le> 6"
    by auto
  from filter_values_ok [OF nn fit, of ?q0] obtain q where
    q: "filter_values ?q0 field_index 0 field_values = Inr q"
       "\<And>r. cond q r = (cond ?q0 r \<and>
          (\<forall>k<length field_values. field_values ! k \<noteq> [] \<longrightarrow>
              values_of r ! (nat field_index + 0 + k) = Some (field_values ! k)))"
    by blast
  have c: "cond q = filtered_match p (nat field_index) field_values"
    by (auto simp: fun_eq_iff q(2) filtered_match_def cond_filter_q query_db_def)
  have "(0 < length (filter (cond q) tbl)) = (\<exists>r\<in>set tbl. cond q r)"
    by (auto simp: filter_empty_conv)
  with True q(1) show ?thesis
    by (simp add: remove_filtered_policy_def delete_q_def Let_def session_scope_delete c)
qed

theorem remove_filtered_policy_bounds_witness:
  "remove_filtered_policy accept_all ''p'' ''p'' 1 [''data1'']
     [\<lparr>id_col = 1, ptype = ''p'', v0 = Some ''alice'', v1 = Some ''data1'',
        v2 = Some ''read'', v3 = None, v4 = None, v5 = None\<rparr>,
      \<lparr>id_col = 2, ptype = ''p'', v0 = Some ''bob'', v1 = Some ''data2'',
        v2 = Some ''write'', v3 = None, v4 = None, v5 = None\<rparr>] =
     ([\<lparr>id_col = 2, ptype = ''p'', v0 = Some ''bob'', v1 = Some ''data2'',
        v2 = Some ''write'', v3 = None, v4 = None, v5 = None\<rparr>], Inr True)
   \<and> (\<exists>r\<in>set [\<lparr>id_col = 1, ptype = ''p'', v0 = Some ''alice'', v1 = Some ''data1'',
        v2 = Some ''read'', v3 = None, v4 = None, v5 = None\<rparr>,
      \<lparr>id_col = 2, ptype = ''p'', v0 = Some ''bob'', v1 = Some ''data2'',
        v2 = Some ''write'', v3 = None, v4 = None, v5 = None\<rparr>].
        filtered_match ''p'' (nat 1) [''data1''] r)
   \<and> remove_filtered_policy accept_all ''p'' ''p'' 5 [''read'', ''extra'']
     [\<lparr>id_col = 1, ptype = ''p'', v0 = Some ''alice'', v1 = Some ''data1'',
        v2 = Some ''read'', v3 = None, v4 = None, v5 = None\<rparr>,
      \<lparr>id_col = 2, ptype = ''p'', v0 = Some ''bob'', v1 = Some ''data2'',
        v2 = Some ''write'', v3 = None, v4 = None, v5 = None\<rparr>] =
     ([\<lparr>id_col = 1, ptype = ''p'', v0 = Some ''alice'', v1 = Some ''data1'',
        v2 = Some ''read'', v3 = None, v4 = None, v5 = None\<rparr>,
      \<lparr>id_col = 2, ptype = ''p'', v0 = Some ''bob'', v1 = Some ''data2'',
        v2 = Some ''write'', v3 = None, v4 = None, v5 = None\<rparr>], Inr False)"
proof -
  let ?r1 = "\<lparr>id_col = 1, ptype = ''p'', v0 = Some ''alice'', v1 = Some ''data1'',
        v2 = Some ''read'', v3 = None, v4 = None, v5 = None\<rparr>"
  let ?r2 = "\<lparr>id_col = 2, ptype = ''p'', v0 = Some ''bob'', v1 = Some ''data2'',
        v2 = Some ''write'', v3 = None, v4 = None, v5 = None\<rparr>"
  have e: "remove_filtered_policy accept_all ''p'' ''p'' 1 [''data1''] [?r1, ?r2] = ([?r2], Inr True)"
    by code_simp
  from remove_filtered_policy_bounds [of accept_all "''p''" "''p''" 1 "[''data1'']" "[?r1, ?r2]"]
  have "remove_filtered_policy accept_all ''p'' ''p'' 1 [''data1''] [?r1, ?r2] =
      (filter (\<lambda>r. \<not> filtered_match ''p'' (nat 1) [''data1''] r) [?r1, ?r2],
       Inr (\<exists>r\<in>set [?r1, ?r2]. filtered_match ''p'' (nat 1) [''data1''] r))"
    by simp
  with e have m: "\<exists>r\<in>set [?r1, ?r2]. filtered_match ''p'' (nat 1) [''data1''] r"
    by (simp only: prod.inject sum.inject simp_thms)
  from remove_filtered_policy_bounds [of accept_all "''p''" "''p''" 5 "[''read'', ''extra'']" "[?r1, ?r2]"]
  have "remove_filtered_policy accept_all ''p'' ''p'' 5 [''read'', ''extra''] [?r1, ?r2]
          = ([?r1, ?r2], Inr False)"
    by simp
  with e m show ?thesis by (intro conjI)
qed

section \<open>Loading\<close>

lemma until_none_set: "until_none (map Some xs @ replicate n None) = xs"
  by (induction xs) (simp_all, cases n, simp_all)

lemma values_of_new_row:
  assumes "length rule \<le> 6"
  shows "values_of (set_values 0 rule (new_line p)) = map Some rule @ replicate (6 - length rule) None"
proof (rule nth_equalityI)
  show "length (values_of (set_values 0 rule (new_line p))) =
        length (map Some rule @ replicate (6 - length rule) None)"
    using assms by (simp add: length_values_of)
next
  fix k assume "k < length (values_of (set_values 0 rule (new_line p)))"
  then have "k < 6" by (simp add: length_values_of)
  then show "values_of (set_values 0 rule (new_line p)) ! k =
        (map Some rule @ replicate (6 - length rule) None) ! k"
    using assms by (simp add: new_row_nth nth_append)
qed

lemma str_new_row:
  assumes "length rule \<le> 6"
  shows "str_rule ((set_values 0 rule (new_line p))\<lparr>id_col := n\<rparr>) = join '', '' (p # rule)"
proof -
  have "values_of ((set_values 0 rule (new_line p))\<lparr>id_col := n\<rparr>)
          = values_of (set_values 0 rule (new_line p))"
    by (simp add: values_of_def)
  moreover have "ptype ((set_values 0 rule (new_line p))\<lparr>id_col := n\<rparr>) = p"
    by (simp add: set_values_ptype new_line_def)
  ultimately show ?thesis
    using assms by (simp add: str_rule_def values_of_new_row until_none_set)
qed

lemma load_policy_lines:
  "load_policy B L m tbl = (tbl, load_lines L (map str_rule tbl) m)"
  by (auto simp: load_policy_def all_q_def query_db_def session_scope_def
      split: prod.splits sum.splits)

text \<open>
  Claim C7. A rule of at most six elements (so in particular of one to six), added
  with \<open>add_policy\<close>, comes back from \<open>load_policy\<close> as the line made of the policy
  type followed by the elements of the rule in order, joined with \<open>", "\<close>: the loader
  is handed the lines of the rows that were there before and then that line.
\<close>

theorem add_policy_load_policy_round_trip:
  assumes "length rule \<le> 6"
      and "add_policy B sec p rule tbl = (tbl', Inr ())"
  shows "load_policy B L m tbl' =
           (tbl', load_lines L (map str_rule tbl @ [join '', '' (p # rule)]) m)"
proof -
  from assms(2) have "tbl' = insert_row p rule tbl"
    by (auto simp: add_policy_def save_policy_line_cases split: if_splits)
  then have "map str_rule tbl' = map str_rule tbl @ [join '', '' (p # rule)]"
    using assms(1) by (simp add: insert_row_def str_new_row)
  then show ?thesis by (simp add: load_policy_lines)
qed

theorem add_policy_load_policy_round_trip_witness:
  "length [''alice'', ''data1'', ''read''] \<le> 6
   \<and> add_policy accept_all ''p'' ''p'' [''alice'', ''data1'', ''read''] [] =
       ([\<lparr>id_col = 1, ptype = ''p'', v0 = Some ''alice'', v1 = Some ''data1'',
          v2 = Some ''read'', v3 = None, v4 = None, v5 = None\<rparr>], Inr ())
   \<and> load_policy accept_all record_line []
       [\<lparr>id_col = 1, ptype = ''p'', v0 = Some ''alice'', v1 = Some ''data1'',
          v2 = Some ''read'', v3 = None, v4 = None, v5 = None\<rparr>] =
       ([\<lparr>id_col = 1, ptype = ''p'', v0 = Some ''alice'', v1 = Some ''data1'',
          v2 = Some ''read'', v3 = None, v4 = None, v5 = None\<rparr>],
        [''p, alice, data1, read''], Inr ())"
proof -
  have h1: "length [''alice'', ''data1'', ''read''] \<le> 6" by simp
  have h2: "add_policy accept_all ''p'' ''p'' [''alice'', ''data1'', ''read''] [] =
       ([\<lparr>id_col = 1, ptype = ''p'', v0 = Some ''alice'', v1 = Some ''data1'',
          v2 = Some ''read'', v3 = None, v4 = None, v5 = None\<rparr>], Inr ())"
    by (simp add: add_policy_def save_policy_line_def session_scope_def new_line_def
        setattr_v_def fresh_id_def accept_all_def)
  from add_policy_load_policy_round_trip [OF h1 h2, where L = record_line and m = "[]"] h1 h2
  show ?thesis by (simp add: record_line_def)
qed

lemma filter_query_empty: "filter_query q empty_filter = order_by_id q"
  by (simp add: filter_query_def empty_filter_def)


lemma all_q_empty_filter: "all_q (filter_query query_db empty_filter) tbl = sort_key id_col tbl"
  by (simp add: filter_query_empty all_q_def order_by_id_def query_db_def)

lemma load_filtered_policy_lines:
  "snd (load_filtered_policy B L m flt a) =
     load_lines L (map str_rule (all_q (filter_query query_db flt) (engine a))) m"
  by (auto simp: load_filtered_policy_def session_scope_def Let_def
      split: prod.splits sum.splits)




section \<open>The filtered flag\<close>

lemma load_filtered_policy_keeps_flag:
  "filtered a \<Longrightarrow> filtered (fst (load_filtered_policy B L m flt a))"
  by (auto simp: load_filtered_policy_def Let_def split: prod.splits sum.splits)

lemma load_filtered_policy_sets_flag:
  "load_filtered_policy B L m flt a = (a', m', Inr u) \<Longrightarrow> filtered a'"
  by (auto simp: load_filtered_policy_def Let_def split: prod.splits sum.splits)

lemma step_keeps_flag: "filtered a \<Longrightarrow> filtered (step B L c a)"
  by (cases c) (simp_all add: load_filtered_policy_keeps_flag)

lemma run_keeps_flag: "filtered a \<Longrightarrow> filtered (run B L calls a)"
  unfolding run_def by (induction calls arbitrary: a) (simp_all add: step_keeps_flag)

text \<open>
  Claim C10. The adapter answers \<open>is_filtered()\<close> with the flag it was constructed
  with. Once a call of \<open>load_filtered_policy\<close> has succeeded, \<open>is_filtered()\<close> is True
  there and after every further sequence of calls of the public methods, \<open>load_policy\<close>
  included. So an adapter that answers False was constructed with \<open>filtered=False\<close>.
\<close>

theorem filtered_flag_is_never_reset:
  "is_filtered (init eng flag) = flag
   \<and> (load_filtered_policy B L m flt a = (a', m', Inr ()) \<longrightarrow>
        is_filtered a' \<and> is_filtered (run B L calls a'))
   \<and> (\<not> is_filtered (run B L calls (init eng flag)) \<longrightarrow> flag = False)"
proof (intro conjI impI)
  show "is_filtered (init eng flag) = flag"
    by (simp add: is_filtered_def init_def)
next
  assume ok: "load_filtered_policy B L m flt a = (a', m', Inr ())"
  then show "is_filtered a'"
    unfolding is_filtered_def by (rule load_filtered_policy_sets_flag)
  then show "is_filtered (run B L calls a')"
    unfolding is_filtered_def by (rule run_keeps_flag)
next
  assume n: "\<not> is_filtered (run B L calls (init eng flag))"
  show "flag = False"
  proof (rule ccontr)
    assume "flag \<noteq> False"
    then have "filtered (init eng flag)" by (simp add: init_def)
    then have "filtered (run B L calls (init eng flag))" by (rule run_keeps_flag)
    with n show False by (simp add: is_filtered_def)
  qed
qed

theorem filtered_flag_is_never_reset_witness:
  "load_filtered_policy accept_all record_line [] empty_filter (init [] False)
     = (\<lparr>engine = [], filtered = True\<rparr>, [], Inr ())
   \<and> is_filtered \<lparr>engine = [], filtered = True\<rparr>
   \<and> is_filtered (run accept_all record_line
        [LoadPolicy [], AddPolicy ''p'' ''p'' [''alice'', ''data1'', ''read''], SavePolicy []]
        \<lparr>engine = [], filtered = True\<rparr>)
   \<and> \<not> is_filtered (run accept_all record_line [LoadPolicy []] (init [] False))"
proof -
  have h: "load_filtered_policy accept_all record_line [] empty_filter (init [] False)
     = (\<lparr>engine = [], filtered = True\<rparr>, [], Inr ())"
    by (simp add: load_filtered_policy_def init_def all_q_empty_filter session_scope_def)
  have n: "\<not> is_filtered (run accept_all record_line [LoadPolicy []] (init [] False))"
    by (simp add: run_def is_filtered_def init_def)
  from filtered_flag_is_never_reset [of "[]" False accept_all record_line "[]" empty_filter
      "init [] False" "\<lparr>engine = [], filtered = True\<rparr>" "[]"
      "[LoadPolicy [], AddPolicy ''p'' ''p'' [''alice'', ''data1'', ''read''], SavePolicy []]"] h n
  show ?thesis by simp
qed

section \<open>Saving a model\<close>

lemma fold_max_ge: "(a::nat) \<le> fold max xs a"
  by (induction xs arbitrary: a) (auto intro: order_trans [OF max.cobounded2])

lemma fold_max_mem: "x \<in> set xs \<Longrightarrow> (x::nat) \<le> fold max xs a"
proof (induction xs arbitrary: a)
  case Nil
  then show ?case by simp
next
  case (Cons y ys)
  show ?case
  proof (cases "x = y")
    case True
    have "y \<le> max y a" by simp
    also have "\<dots> \<le> fold max ys (max y a)" by (rule fold_max_ge)
    finally show ?thesis using True by simp
  next
    case False
    with Cons show ?thesis by simp
  qed
qed

lemma fresh_id_gt: "x \<in> set tbl \<Longrightarrow> id_col x < fresh_id tbl"
  using fold_max_mem [of "id_col x" "map id_col tbl" 0] by (simp add: fresh_id_def less_Suc_eq_le)

lemma save_rules_ok:
  "save_rules B p rules tbl = (tbl', Inr u) \<Longrightarrow>
     tbl' = fold (\<lambda>(p, rule). insert_row p rule) (map (Pair p) rules) tbl"
proof (induction rules arbitrary: tbl)
  case Nil
  then show ?case by simp
next
  case (Cons rule rules)
  then show ?case
    by (auto simp: save_policy_line_cases split: if_splits)
qed

lemma save_items_ok:
  "save_items B items tbl = (tbl', Inr u) \<Longrightarrow>
     tbl' = fold (\<lambda>(p, rule). insert_row p rule)
              (concat (map (\<lambda>(p, policy). map (Pair p) policy) items)) tbl"
proof (induction items arbitrary: tbl)
  case Nil
  then show ?case by simp
next
  case (Cons item items)
  obtain p policy where item: "item = (p, policy)" by (cases item)
  from Cons.prems obtain t where
    t: "save_rules B p policy tbl = (t, Inr ())" "save_items B items t = (tbl', Inr u)"
    by (auto simp: item split: prod.splits sum.splits)
  from save_rules_ok [OF t(1)] Cons.IH [OF t(2)] show ?case
    by (simp add: item)
qed

lemma save_secs_ok:
  "save_secs B model secs tbl = (tbl', Inr u) \<Longrightarrow>
     tbl' = fold (\<lambda>(p, rule). insert_row p rule)
              (concat (map (\<lambda>sec. case map_of model sec of
                          None \<Rightarrow> []
                        | Some items \<Rightarrow> concat (map (\<lambda>(p, policy). map (Pair p) policy) items))
                 secs)) tbl"
proof (induction secs arbitrary: tbl)
  case Nil
  then show ?case by simp
next
  case (Cons sec secs)
  show ?case
  proof (cases "map_of model sec")
    case None
    with Cons show ?thesis by simp
  next
    case (Some items)
    with Cons.prems obtain t where
      t: "save_items B items tbl = (t, Inr ())" "save_secs B model secs t = (tbl', Inr u)"
      by (auto split: prod.splits sum.splits)
    from save_items_ok [OF t(1)] Cons.IH [OF t(2)] Some show ?thesis
      by simp
  qed
qed

lemma row_of_inserted:
  "row_of_rule ((set_values 0 rule (new_line p))\<lparr>id_col := n\<rparr>) (p, rule)"
proof -
  have "values_of ((set_values 0 rule (new_line p))\<lparr>id_col := n\<rparr>)
          = values_of (set_values 0 rule (new_line p))"
    by (simp add: values_of_def)
  moreover have "ptype ((set_values 0 rule (new_line p))\<lparr>id_col := n\<rparr>) = p"
    by (simp add: set_values_ptype new_line_def)
  ultimately show ?thesis
    by (simp add: row_of_rule_def new_row_nth)
qed

lemma fold_insert_rows:
  "\<exists>new. fold (\<lambda>(p, rule). insert_row p rule) prs tbl = tbl @ new
         \<and> list_all2 row_of_rule new prs
         \<and> (\<forall>r\<in>set new. \<forall>x\<in>set tbl. id_col x < id_col r)"
proof (induction prs arbitrary: tbl)
  case Nil
  then show ?case by simp
next
  case (Cons pr prs)
  obtain p rule where pr: "pr = (p, rule)" by (cases pr)
  let ?row = "(set_values 0 rule (new_line p))\<lparr>id_col := fresh_id tbl\<rparr>"
  from Cons.IH [of "tbl @ [?row]"] obtain new where
    new: "fold (\<lambda>(p, rule). insert_row p rule) prs (tbl @ [?row]) = (tbl @ [?row]) @ new"
         "list_all2 row_of_rule new prs"
         "\<forall>r\<in>set new. \<forall>x\<in>set (tbl @ [?row]). id_col x < id_col r"
    by blast
  have "fold (\<lambda>(p, rule). insert_row p rule) (pr # prs) tbl = tbl @ (?row # new)"
    using new(1) by (simp add: pr insert_row_def)
  moreover have "list_all2 row_of_rule (?row # new) (pr # prs)"
    using new(2) by (simp add: pr row_of_inserted)
  moreover have "\<forall>r\<in>set (?row # new). \<forall>x\<in>set tbl. id_col x < id_col r"
    using new(3) by (auto simp: fresh_id_gt)
  ultimately show ?case by blast
qed

text \<open>When \<open>save_policy\<close> returns, it returns True, the table holds one row for
  every rule of the sections \<open>p\<close> and \<open>g\<close> of the model, in order, and none of the
  rows it held before.\<close>

lemma save_policy_replaces_table:
  assumes "save_policy B model tbl = (tbl', Inr b)"
  shows "b = True \<and> list_all2 row_of_rule tbl' (model_rules model)
         \<and> (\<forall>r\<in>set tbl'. r \<notin> set tbl)
         \<and> tbl @ tbl' = fold (\<lambda>(p, rule). insert_row p rule) (model_rules model) tbl"
proof -
  obtain tbl1 res where s0: "save_secs B model [''p'', ''g''] tbl = (tbl1, res)"
    by (cases "save_secs B model [''p'', ''g''] tbl")
  have run: "save_policy B model tbl =
      (case session_scope B (case res of Inl e \<Rightarrow> Inl e
                                    | Inr u \<Rightarrow> Inr ([Delete (filter (\<lambda>r. True) tbl)], u)) tbl1 of
         (tbl2, Inl e) \<Rightarrow> (tbl2, Inl e)
       | (tbl2, Inr u) \<Rightarrow> (tbl2, Inr True))"
    by (simp add: save_policy_def delete_q_def query_db_def Let_def s0 split: prod.splits sum.splits
        del: save_secs.simps)
  have res: "res = Inr ()"
  proof (cases res)
    case (Inl e)
    with run assms show ?thesis by (simp add: session_scope_def)
  next
    case (Inr u)
    then show ?thesis by simp
  qed
  with s0 have s: "save_secs B model [''p'', ''g''] tbl = (tbl1, Inr ())" by simp
  from run assms res
  have out: "session_scope B (Inr ([Delete (filter (\<lambda>r. True) tbl)], ())) tbl1 = (tbl', Inr ())"
    and b: "b = True"
    by (auto split: prod.splits sum.splits)
  from save_secs_ok [OF s] have tbl1: "tbl1 = fold (\<lambda>(p, rule). insert_row p rule) (model_rules model) tbl"
    by (simp add: model_rules_def)
  from fold_insert_rows [of "model_rules model" tbl] obtain new where
    new: "fold (\<lambda>(p, rule). insert_row p rule) (model_rules model) tbl = tbl @ new"
         "list_all2 row_of_rule new (model_rules model)"
         "\<forall>r\<in>set new. \<forall>x\<in>set tbl. id_col x < id_col r"
    by blast
  have fresh: "\<forall>r\<in>set new. r \<notin> set tbl"
    using new(3) by fastforce
  then have "filter (\<lambda>r. r \<notin> set tbl) (tbl @ new) = new"
    by (simp add: filter_id_conv)
  with out tbl1 new(1) have "tbl' = new"
    by (simp add: session_scope_def)
  with b new fresh tbl1 show ?thesis by simp
qed

text \<open>
  Claim C3 at a run where an insert raises. The backend enforces \<open>String(255)\<close>; the
  table holds one row; the model has two rules under \<open>p\<close>, the second with a value of
  256 characters. The insert of the second rule raises. The row of the first rule was
  committed by the session of its own insert and stays; the delete of the outer
  session is rolled back, so the old row stays too. The table is neither what it was
  before the call nor the rules of the model, and the call does not return True.
\<close>

theorem save_policy_inserts_outside_its_transaction:
  "save_policy string255
     [(''p'', [(''p'', [[''alice'', ''data1'', ''read''], [replicate 256 CHR ''a'']])])]
     [\<lparr>id_col = 1, ptype = ''p'', v0 = Some ''bob'', v1 = Some ''data2'',
        v2 = Some ''write'', v3 = None, v4 = None, v5 = None\<rparr>] =
   ([\<lparr>id_col = 1, ptype = ''p'', v0 = Some ''bob'', v1 = Some ''data2'',
        v2 = Some ''write'', v3 = None, v4 = None, v5 = None\<rparr>,
     \<lparr>id_col = 2, ptype = ''p'', v0 = Some ''alice'', v1 = Some ''data1'',
        v2 = Some ''read'', v3 = None, v4 = None, v5 = None\<rparr>], Inl StorageError)"
  by (simp add: save_policy_def delete_q_def query_db_def save_policy_line_def
      session_scope_def new_line_def setattr_v_def fresh_id_def string255_def
      values_of_def fits_def)

end
